theory Spec2Isabelle
  imports Main "HOL-Library.Word" "HOL-Library.Sublist"
begin

section \<open>The traffic forwarder and its environment\<close>

text \<open>
  The forwarder (\<^verbatim>\<open>traffic_forwarder.py\<close>) is three functions: \<^verbatim>\<open>forward\<close>, the copy loop
  of one direction of a connection; \<^verbatim>\<open>server\<close>, the listener with its accept loop; and
  \<^verbatim>\<open>main\<close>, which parses four arguments, starts \<^verbatim>\<open>server\<close> in a thread and sleeps for ever.
  All they do is call the socket library, print and sleep. The model therefore records
  what each function does as the list of its calls, in program order, each call with the
  outcome the environment gave it, and takes those outcomes as input.
\<close>

type_synonym byte = "8 word"
type_synonym bytes = "byte list"

text \<open>A socket object is named by a number; the model hands out fresh ones.\<close>

type_synonym sock = nat

text \<open>
  The exceptions that matter: \<^verbatim>\<open>forward\<close> has one handler for \<^verbatim>\<open>ConnectionResetError\<close> and
  one for every other \<^verbatim>\<open>Exception\<close>; \<^verbatim>\<open>server\<close> catches \<^verbatim>\<open>Exception\<close> only.
\<close>

datatype exn = ConnectionResetError | OSError | RuntimeError | IndexError | ValueError

text \<open>
  A library call returns a value, raises, or does not come back: the sockets are blocking
  and have no timeout, so \<^verbatim>\<open>recv\<close>, \<^verbatim>\<open>accept\<close> and \<^verbatim>\<open>connect\<close> may wait for ever.
\<close>

datatype 'a outcome = Returns 'a | Raises exn | Blocks

datatype how = SHUT_RD | SHUT_WR

datatype family = AF_INET | AF_VSOCK

text \<open>The four positional parameters of \<^verbatim>\<open>server\<close>.\<close>

record config =
  local_ip :: string
  local_port :: int
  remote_cid :: int
  remote_port :: int

text \<open>A thread is its target with its arguments.\<close>

datatype thread = Forward sock sock | Server config

text \<open>
  One event per call, with its arguments and its outcome. \<^verbatim>\<open>Print\<close> and \<^verbatim>\<open>Sleep\<close> are
  a \<^verbatim>\<open>print\<close> and a \<^verbatim>\<open>time.sleep\<close> that returned, \<^verbatim>\<open>PrintRaised\<close> and \<^verbatim>\<open>SleepRaised\<close>
  one that raised (a closed or broken standard output, an interrupted sleep). \<^verbatim>\<open>Close\<close> is a
  call of \<^verbatim>\<open>close\<close>. A printed message is recorded without the interpolated exception or
  address.
\<close>

datatype event =
    Recv sock nat "bytes outcome"
  | SendAll sock bytes "unit outcome"
  | Shutdown sock how "unit outcome"
  | Close sock
  | Print string
  | PrintRaised string exn
  | Sleep nat
  | SleepRaised nat exn
  | Socket family "sock outcome"
  | SetSockOpt sock "unit outcome"
  | Bind sock string int "unit outcome"
  | Listen sock nat "unit outcome"
  | Accept sock "sock outcome"
  | Connect sock int int "unit outcome"
  | Start thread "unit outcome"

text \<open>
  How a run of a function stands once the given outcomes are used up: it has returned,
  an exception has left it, or it is inside a call that has not come back.
\<close>

datatype status = Returned | Raised exn | Blocked

text \<open>
  The outcomes are given as a list, one per call in the order of the calls. A call made
  when the list is used up has not come back: a finite list describes a run up to some
  moment, and every statement below about all lists is a statement about every moment
  of every run.
\<close>

fun reply :: "'a outcome list \<Rightarrow> 'a outcome \<times> 'a outcome list" where
  "reply [] = (Blocks, [])"
| "reply (r # rs) = (r, rs)"

text \<open>\<^verbatim>\<open>emit evs run\<close>: the events \<^verbatim>\<open>evs\<close>, then the run \<^verbatim>\<open>run\<close>.\<close>

definition emit :: "event list \<Rightarrow> event list \<times> 'a \<Rightarrow> event list \<times> 'a" where
  "emit evs run = (evs @ fst run, snd run)"

subsection \<open>\<^verbatim>\<open>forward\<close>: one direction of a connection\<close>



subsection \<open>\<^verbatim>\<open>server\<close>: the listener\<close>

text \<open>
  \<^verbatim>\<open>
  def server(local_ip, local_port, remote_cid, remote_port):
      while True:
          try:
              dock_socket = socket.socket(socket.AF_INET, socket.SOCK_STREAM)
              dock_socket.setsockopt(socket.SOL_SOCKET, socket.SO_REUSEADDR, 1)
              dock_socket.bind((local_ip, local_port))
              dock_socket.listen(5)
              print(...)
              while True:
                  try:
                      client_socket, addr = dock_socket.accept()
                      print(...)
                      server_socket = socket.socket(socket.AF_VSOCK, socket.SOCK_STREAM)
                      server_socket.connect((remote_cid, remote_port))
                      outgoing_thread = threading.Thread(target=forward, args=(client_socket, server_socket))
                      incoming_thread = threading.Thread(target=forward, args=(server_socket, client_socket))
                      outgoing_thread.start()
                      incoming_thread.start()
                  except Exception as e:
                      print(...); time.sleep(1)
          except Exception as e:
              print(...); time.sleep(5)
              try: dock_socket.close()
              except: pass
  \<close>
  The listener's socket and thread calls are answered from one list (\<^verbatim>\<open>script\<close>), in program
  order. Its \<^verbatim>\<open>print\<close> and \<^verbatim>\<open>time.sleep\<close> calls always come back, and are answered from a
  second list (\<^verbatim>\<open>faults\<close>), in program order: \<^verbatim>\<open>None\<close> for a call that returned, \<^verbatim>\<open>Some e\<close>
  for one that raised \<^verbatim>\<open>e\<close>; past its end the calls return. Where an exception goes depends
  on where the call stands: the \<^verbatim>\<open>print\<close> after \<^verbatim>\<open>accept\<close> is inside the inner \<^verbatim>\<open>try\<close>; the
  \<^verbatim>\<open>print\<close> after \<^verbatim>\<open>listen\<close> and the inner handler's \<^verbatim>\<open>print\<close> and \<^verbatim>\<open>sleep\<close> are inside the
  outer \<^verbatim>\<open>try\<close> only; the outer handler's \<^verbatim>\<open>print\<close> and \<^verbatim>\<open>sleep\<close> are inside none, and an
  exception of theirs leaves \<^verbatim>\<open>server\<close>. The outer handler's \<^verbatim>\<open>close\<close> has a \<^verbatim>\<open>try\<close> of its
  own that ignores every failure, so its outcome changes nothing. The construction of the
  two \<^verbatim>\<open>Thread\<close> objects calls nothing outside the program and has no event.
\<close>

type_synonym script = "unit outcome list"

type_synonym faults = "exn option list"

fun fault :: "faults \<Rightarrow> exn option \<times> faults" where
  "fault [] = (None, [])"
| "fault (f # fs) = (f, fs)"

definition print_line :: "string \<Rightarrow> faults \<Rightarrow> event list \<times> exn option \<times> faults" where
  "print_line msg fs =
     (case fault fs of
        (None, fs') \<Rightarrow> ([Print msg], None, fs')
      | (Some e, fs') \<Rightarrow> ([PrintRaised msg e], Some e, fs'))"

definition sleep_for :: "nat \<Rightarrow> faults \<Rightarrow> event list \<times> exn option \<times> faults" where
  "sleep_for n fs =
     (case fault fs of
        (None, fs') \<Rightarrow> ([Sleep n], None, fs')
      | (Some e, fs') \<Rightarrow> ([SleepRaised n e], Some e, fs'))"

text \<open>
  \<^verbatim>\<open>listen_setup\<close> is the outer \<^verbatim>\<open>try\<close> block up to the inner loop. It also returns the
  binding of the variable \<^verbatim>\<open>dock_socket\<close>, which the outer handler closes: the variable is
  unbound until the first \<^verbatim>\<open>socket.socket\<close> returns, and keeps the previous socket when a
  later \<^verbatim>\<open>socket.socket\<close> raises.
\<close>

definition listen_setup ::
  "config \<Rightarrow> sock option \<Rightarrow> nat \<Rightarrow> faults \<Rightarrow> script
     \<Rightarrow> event list \<times> sock option \<times> sock outcome \<times> nat \<times> faults \<times> script" where
  "listen_setup cfg dock fd fs script =
     (case reply script of
        (Blocks, s1) \<Rightarrow> ([Socket AF_INET Blocks], dock, Blocks, fd, fs, s1)
      | (Raises e, s1) \<Rightarrow> ([Socket AF_INET (Raises e)], dock, Raises e, fd, fs, s1)
      | (Returns u, s1) \<Rightarrow>
         (case reply s1 of
            (Blocks, s2) \<Rightarrow>
              ([Socket AF_INET (Returns fd), SetSockOpt fd Blocks],
               Some fd, Blocks, Suc fd, fs, s2)
          | (Raises e, s2) \<Rightarrow>
              ([Socket AF_INET (Returns fd), SetSockOpt fd (Raises e)],
               Some fd, Raises e, Suc fd, fs, s2)
          | (Returns u, s2) \<Rightarrow>
             (case reply s2 of
                (Blocks, s3) \<Rightarrow>
                  ([Socket AF_INET (Returns fd), SetSockOpt fd (Returns ()),
                    Bind fd (local_ip cfg) (local_port cfg) Blocks],
                   Some fd, Blocks, Suc fd, fs, s3)
              | (Raises e, s3) \<Rightarrow>
                  ([Socket AF_INET (Returns fd), SetSockOpt fd (Returns ()),
                    Bind fd (local_ip cfg) (local_port cfg) (Raises e)],
                   Some fd, Raises e, Suc fd, fs, s3)
              | (Returns u, s3) \<Rightarrow>
                 (case reply s3 of
                    (Blocks, s4) \<Rightarrow>
                      ([Socket AF_INET (Returns fd), SetSockOpt fd (Returns ()),
                        Bind fd (local_ip cfg) (local_port cfg) (Returns ()),
                        Listen fd 5 Blocks],
                       Some fd, Blocks, Suc fd, fs, s4)
                  | (Raises e, s4) \<Rightarrow>
                      ([Socket AF_INET (Returns fd), SetSockOpt fd (Returns ()),
                        Bind fd (local_ip cfg) (local_port cfg) (Returns ()),
                        Listen fd 5 (Raises e)],
                       Some fd, Raises e, Suc fd, fs, s4)
                  | (Returns u, s4) \<Rightarrow>
                     (case print_line ''[INFO] Traffic forwarder listening'' fs of
                        (printed, Some e, fs') \<Rightarrow>
                          ([Socket AF_INET (Returns fd), SetSockOpt fd (Returns ()),
                            Bind fd (local_ip cfg) (local_port cfg) (Returns ()),
                            Listen fd 5 (Returns ())] @ printed,
                           Some fd, Raises e, Suc fd, fs', s4)
                      | (printed, None, fs') \<Rightarrow>
                          ([Socket AF_INET (Returns fd), SetSockOpt fd (Returns ()),
                            Bind fd (local_ip cfg) (local_port cfg) (Returns ()),
                            Listen fd 5 (Returns ())] @ printed,
                           Some fd, Returns fd, Suc fd, fs', s4))))))"

text \<open>\<^verbatim>\<open>handoff\<close> is the body of the inner \<^verbatim>\<open>try\<close>.\<close>

definition handoff ::
  "config \<Rightarrow> sock \<Rightarrow> nat \<Rightarrow> faults \<Rightarrow> script
     \<Rightarrow> event list \<times> unit outcome \<times> nat \<times> faults \<times> script" where
  "handoff cfg dock fd fs script =
     (case reply script of
        (Blocks, s1) \<Rightarrow> ([Accept dock Blocks], Blocks, fd, fs, s1)
      | (Raises e, s1) \<Rightarrow> ([Accept dock (Raises e)], Raises e, fd, fs, s1)
      | (Returns u, s1) \<Rightarrow>
         (let client_socket = fd in
          case print_line ''[INFO] Accepted connection'' fs of
            (printed, Some e, fs') \<Rightarrow>
              (Accept dock (Returns client_socket) # printed, Raises e, Suc fd, fs', s1)
          | (printed, None, fs') \<Rightarrow>
             (let accepted = Accept dock (Returns client_socket) # printed in
              case reply s1 of
                (Blocks, s2) \<Rightarrow> (accepted @ [Socket AF_VSOCK Blocks], Blocks, Suc fd, fs', s2)
              | (Raises e, s2) \<Rightarrow>
                  (accepted @ [Socket AF_VSOCK (Raises e)], Raises e, Suc fd, fs', s2)
              | (Returns u, s2) \<Rightarrow>
                 (let server_socket = Suc fd;
                      opened = accepted @ [Socket AF_VSOCK (Returns server_socket)]
                  in case reply s2 of
                    (Blocks, s3) \<Rightarrow>
                      (opened @
                         [Connect server_socket (remote_cid cfg) (remote_port cfg) Blocks],
                       Blocks, Suc (Suc fd), fs', s3)
                  | (Raises e, s3) \<Rightarrow>
                      (opened @
                         [Connect server_socket (remote_cid cfg) (remote_port cfg) (Raises e)],
                       Raises e, Suc (Suc fd), fs', s3)
                  | (Returns u, s3) \<Rightarrow>
                     (let connected = opened @
                            [Connect server_socket (remote_cid cfg) (remote_port cfg)
                               (Returns ())];
                          outgoing_thread = Forward client_socket server_socket;
                          incoming_thread = Forward server_socket client_socket
                      in case reply s3 of
                        (Blocks, s4) \<Rightarrow>
                          (connected @ [Start outgoing_thread Blocks],
                           Blocks, Suc (Suc fd), fs', s4)
                      | (Raises e, s4) \<Rightarrow>
                          (connected @ [Start outgoing_thread (Raises e)],
                           Raises e, Suc (Suc fd), fs', s4)
                      | (Returns u, s4) \<Rightarrow>
                         (case reply s4 of
                            (Blocks, s5) \<Rightarrow>
                              (connected @ [Start outgoing_thread (Returns ()),
                                            Start incoming_thread Blocks],
                               Blocks, Suc (Suc fd), fs', s5)
                          | (Raises e, s5) \<Rightarrow>
                              (connected @ [Start outgoing_thread (Returns ()),
                                            Start incoming_thread (Raises e)],
                               Raises e, Suc (Suc fd), fs', s5)
                          | (Returns u, s5) \<Rightarrow>
                              (connected @ [Start outgoing_thread (Returns ()),
                                            Start incoming_thread (Returns ())],
                               Returns (), Suc (Suc fd), fs', s5)))))))"

text \<open>
  The inner handler, \<^verbatim>\<open>print(...); time.sleep(1)\<close>: its events, and the exception that
  leaves it, if one does.
\<close>

definition inner_except :: "faults \<Rightarrow> event list \<times> exn option \<times> faults" where
  "inner_except fs =
     (case print_line ''[ERROR] Error handling connection'' fs of
        (printed, Some e, fs') \<Rightarrow> (printed, Some e, fs')
      | (printed, None, fs') \<Rightarrow>
         (case sleep_for 1 fs' of (slept, r, fs'') \<Rightarrow> (printed @ slept, r, fs'')))"

text \<open>
  The outer handler up to its \<^verbatim>\<open>sleep\<close>, \<^verbatim>\<open>print(...); time.sleep(5)\<close>, likewise; and
  \<^verbatim>\<open>try: dock_socket.close() except: pass\<close>, which also swallows the unbound variable.
\<close>

definition outer_except :: "faults \<Rightarrow> event list \<times> exn option \<times> faults" where
  "outer_except fs =
     (case print_line ''[ERROR] Server error'' fs of
        (printed, Some e, fs') \<Rightarrow> (printed, Some e, fs')
      | (printed, None, fs') \<Rightarrow>
         (case sleep_for 5 fs' of (slept, r, fs'') \<Rightarrow> (printed @ slept, r, fs'')))"

definition close_quietly :: "sock option \<Rightarrow> event list" where
  "close_quietly dock = (case dock of None \<Rightarrow> [] | Some dock_socket \<Rightarrow> [Close dock_socket])"

text \<open>Both loops end on every list of outcomes: each turn uses up at least one.\<close>

lemma reply_eq:
  "reply script = (r, rest) \<longleftrightarrow> (script = [] \<and> r = Blocks \<and> rest = []) \<or> script = r # rest"
  by (cases script) auto

lemma handoff_consumes:
  "handoff cfg dock fd fs script = (evs, r, fd', fs', rest) \<Longrightarrow> r \<noteq> Blocks \<Longrightarrow>
   length rest < length script"
  unfolding handoff_def Let_def
  by (auto simp: reply_eq split: prod.splits outcome.splits option.splits)

lemma listen_setup_consumes:
  "listen_setup cfg dock fd fs script = (evs, dock', r, fd', fs', rest) \<Longrightarrow> r \<noteq> Blocks \<Longrightarrow>
   length rest < length script"
  unfolding listen_setup_def
  by (auto simp: reply_eq split: prod.splits outcome.splits option.splits)

text \<open>
  The inner loop. It stops inside a call that has not come back, or is left by an
  exception of its handler's \<^verbatim>\<open>print\<close> or \<^verbatim>\<open>sleep\<close>; it then hands back what is left of the
  two lists, for the outer loop to go on with.
\<close>

function accept_loop ::
  "config \<Rightarrow> sock \<Rightarrow> nat \<Rightarrow> faults \<Rightarrow> script
     \<Rightarrow> event list \<times> status \<times> nat \<times> faults \<times> script" where
  "accept_loop cfg dock fd fs script =
     (case handoff cfg dock fd fs script of
        (evs, Blocks, fd', fs', rest) \<Rightarrow> (evs, Blocked, fd', fs', rest)
      | (evs, Returns u, fd', fs', rest) \<Rightarrow> emit evs (accept_loop cfg dock fd' fs' rest)
      | (evs, Raises e, fd', fs', rest) \<Rightarrow>
         (case inner_except fs' of
            (handled, Some e', fs'') \<Rightarrow> (evs @ handled, Raised e', fd', fs'', rest)
          | (handled, None, fs'') \<Rightarrow>
              emit (evs @ handled) (accept_loop cfg dock fd' fs'' rest)))"
  by pat_completeness auto
termination
  by (relation "measure (\<lambda>(cfg, dock, fd, fs, script). length script)")
     (auto dest: handoff_consumes [OF sym])

declare accept_loop.simps [simp del]

lemma accept_loop_rest:
  "length (snd (snd (snd (snd (accept_loop cfg dock fd fs script))))) \<le> length script"
proof (induction cfg dock fd fs script rule: accept_loop.induct)
  case (1 cfg dock fd fs script)
  obtain evs r fd1 fs1 rest1 where H: "handoff cfg dock fd fs script = (evs, r, fd1, fs1, rest1)"
    by (cases "handoff cfg dock fd fs script") auto
  obtain handled x fs2 where I: "inner_except fs1 = (handled, x, fs2)"
    by (cases "inner_except fs1") auto
  show ?case
  proof (cases r)
    case (Returns u)
    from handoff_consumes[OF H] Returns have "length rest1 < length script" by simp
    with 1(1)[OF H[symmetric] refl Returns refl refl] H Returns show ?thesis
      by (subst accept_loop.simps) (simp add: emit_def)
  next
    case (Raises e)
    from handoff_consumes[OF H] Raises have l: "length rest1 < length script" by simp
    show ?thesis
    proof (cases x)
      case None
      with 1(2)[OF H[symmetric] refl Raises refl refl I[symmetric] refl] l H Raises I show ?thesis
        by (subst accept_loop.simps) (simp add: emit_def)
    next
      case (Some e')
      with l H Raises I show ?thesis
        by (subst accept_loop.simps) simp
    qed
  next
    case Blocks
    with H show ?thesis
      by (subst accept_loop.simps)
         (auto simp: handoff_def Let_def reply_eq split: prod.splits outcome.splits option.splits)
  qed
qed

text \<open>
  The outer \<^verbatim>\<open>try\<close> block as a whole: the setup, then the inner loop. It stops inside a
  call, or an exception takes it to the outer handler.
\<close>

definition outer_try ::
  "config \<Rightarrow> sock option \<Rightarrow> nat \<Rightarrow> faults \<Rightarrow> script
     \<Rightarrow> event list \<times> sock option \<times> status \<times> nat \<times> faults \<times> script" where
  "outer_try cfg dock fd fs script =
     (case listen_setup cfg dock fd fs script of
        (evs, dock', Blocks, fd', fs', rest) \<Rightarrow> (evs, dock', Blocked, fd', fs', rest)
      | (evs, dock', Raises e, fd', fs', rest) \<Rightarrow> (evs, dock', Raised e, fd', fs', rest)
      | (evs, dock', Returns dock_socket, fd', fs', rest) \<Rightarrow>
          (case accept_loop cfg dock_socket fd' fs' rest of
             (tr, st, fd'', fs'', rest') \<Rightarrow> (evs @ tr, dock', st, fd'', fs'', rest')))"

lemma outer_try_consumes:
  "outer_try cfg dock fd fs script = (evs, dock', Raised e, fd', fs', rest) \<Longrightarrow>
   length rest < length script"
proof -
  assume a: "outer_try cfg dock fd fs script = (evs, dock', Raised e, fd', fs', rest)"
  obtain evs1 dock1 r fd1 fs1 rest1 where
    L: "listen_setup cfg dock fd fs script = (evs1, dock1, r, fd1, fs1, rest1)"
    by (cases "listen_setup cfg dock fd fs script") auto
  show ?thesis
  proof (cases r)
    case (Returns d)
    from listen_setup_consumes[OF L] Returns have "length rest1 < length script" by simp
    moreover from a L Returns
    have "rest = snd (snd (snd (snd (accept_loop cfg d fd1 fs1 rest1))))"
      by (auto simp: outer_try_def split: prod.splits)
    ultimately show ?thesis
      using accept_loop_rest[of cfg d fd1 fs1 rest1] by simp
  next
    case (Raises e1)
    with listen_setup_consumes[OF L] a L show ?thesis
      by (simp add: outer_try_def)
  next
    case Blocks
    with a L show ?thesis by (simp add: outer_try_def)
  qed
qed

text \<open>The outer loop: \<^verbatim>\<open>server\<close> itself.\<close>

function server_loop ::
  "config \<Rightarrow> sock option \<Rightarrow> nat \<Rightarrow> faults \<Rightarrow> script \<Rightarrow> event list \<times> status" where
  "server_loop cfg dock fd fs script =
     (case outer_try cfg dock fd fs script of
        (evs, dock', Blocked, fd', fs', rest) \<Rightarrow> (evs, Blocked)
      | (evs, dock', Returned, fd', fs', rest) \<Rightarrow> (evs, Returned)
      | (evs, dock', Raised e, fd', fs', rest) \<Rightarrow>
         (case outer_except fs' of
            (handled, Some e', fs'') \<Rightarrow> (evs @ handled, Raised e')
          | (handled, None, fs'') \<Rightarrow>
              emit (evs @ handled @ close_quietly dock')
                (server_loop cfg dock' fd' fs'' rest)))"
  by pat_completeness auto
termination
  by (relation "measure (\<lambda>(cfg, dock, fd, fs, script). length script)")
     (auto dest: outer_try_consumes [OF sym])

declare server_loop.simps [simp del]

definition server :: "config \<Rightarrow> faults \<Rightarrow> script \<Rightarrow> event list \<times> status" where
  "server cfg fs script = server_loop cfg None 0 fs script"



subsection \<open>\<^verbatim>\<open>main\<close>\<close>

text \<open>
  \<^verbatim>\<open>
  def main(args):
      local_ip = str(args[0])
      local_port = int(args[1])
      remote_cid = int(args[2])
      remote_port = int(args[3])
      thread = threading.Thread(target=server, args=(...))
      thread.start()
      print(...)
      while True:
          time.sleep(60)
  \<close>
  Python's \<^verbatim>\<open>int\<close> on a string is a parameter \<^verbatim>\<open>py_int\<close> (\<^verbatim>\<open>None\<close> where it raises
  \<^verbatim>\<open>ValueError\<close>). \<^verbatim>\<open>started\<close> is the outcome of \<^verbatim>\<open>thread.start()\<close>, \<^verbatim>\<open>printed\<close> that of the
  \<^verbatim>\<open>print\<close>, and \<^verbatim>\<open>sleeps i\<close> that of the \<^verbatim>\<open>i\<close>-th \<^verbatim>\<open>time.sleep(60)\<close>; none of the three
  stands in a \<^verbatim>\<open>try\<close>. The last loop may run for ever, so it is a partial function into
  \<^verbatim>\<open>option\<close>: \<^verbatim>\<open>None\<close> is "never comes back", and the only way out is an exception, given
  with the number of sleeps that returned before it.
\<close>

definition arg :: "string list \<Rightarrow> nat \<Rightarrow> exn + string" where
  "arg args i = (if i < length args then Inr (args ! i) else Inl IndexError)"

definition parse_args :: "(string \<Rightarrow> int option) \<Rightarrow> string list \<Rightarrow> exn + config" where
  "parse_args py_int args =
     (case arg args 0 of Inl e \<Rightarrow> Inl e | Inr a0 \<Rightarrow>
      (case arg args 1 of Inl e \<Rightarrow> Inl e | Inr a1 \<Rightarrow>
       (case py_int a1 of None \<Rightarrow> Inl ValueError | Some port \<Rightarrow>
        (case arg args 2 of Inl e \<Rightarrow> Inl e | Inr a2 \<Rightarrow>
         (case py_int a2 of None \<Rightarrow> Inl ValueError | Some cid \<Rightarrow>
          (case arg args 3 of Inl e \<Rightarrow> Inl e | Inr a3 \<Rightarrow>
           (case py_int a3 of None \<Rightarrow> Inl ValueError | Some rport \<Rightarrow>
              Inr \<lparr>local_ip = a0, local_port = port, remote_cid = cid,
                   remote_port = rport\<rparr>)))))))"

partial_function (option) keep_alive :: "(nat \<Rightarrow> exn option) \<Rightarrow> nat \<Rightarrow> (nat \<times> exn) option" where
  "keep_alive sleeps i =
     (case sleeps i of None \<Rightarrow> keep_alive sleeps (Suc i) | Some e \<Rightarrow> Some (i, e))"

definition main ::
  "(string \<Rightarrow> int option) \<Rightarrow> string list \<Rightarrow> unit outcome \<Rightarrow> exn option \<Rightarrow> (nat \<Rightarrow> exn option)
     \<Rightarrow> (event list \<times> status) option" where
  "main py_int args started printed sleeps =
     (case parse_args py_int args of
        Inl e \<Rightarrow> Some ([], Raised e)
      | Inr cfg \<Rightarrow>
         (case started of
            Raises e \<Rightarrow> Some ([Start (Server cfg) (Raises e)], Raised e)
          | Blocks \<Rightarrow> None
          | Returns u \<Rightarrow>
             (case printed of
                Some e \<Rightarrow>
                  Some ([Start (Server cfg) (Returns ()), PrintRaised ''starting forwarder'' e],
                        Raised e)
              | None \<Rightarrow>
                 (case keep_alive sleeps 0 of
                    None \<Rightarrow> None
                  | Some (n, e) \<Rightarrow>
                      Some ([Start (Server cfg) (Returns ()), Print ''starting forwarder'']
                              @ replicate n (Sleep 60) @ [SleepRaised 60 e],
                            Raised e)))))"

section \<open>Reading a trace\<close>














text \<open>
  The events of the listener: \<^verbatim>\<open>is_call\<close> holds of the calls that \<^verbatim>\<open>script\<close> answers,
  \<^verbatim>\<open>call_raised\<close> of those that raised, \<^verbatim>\<open>log_raised\<close> of a \<^verbatim>\<open>print\<close> or \<^verbatim>\<open>sleep\<close> that
  raised, \<^verbatim>\<open>is_pump_io\<close> of the calls only \<^verbatim>\<open>forward\<close> makes.
\<close>

fun is_call :: "event \<Rightarrow> bool" where
  "is_call (Socket f r) = True"
| "is_call (SetSockOpt s r) = True"
| "is_call (Bind s a p r) = True"
| "is_call (Listen s n r) = True"
| "is_call (Accept s r) = True"
| "is_call (Connect s c p r) = True"
| "is_call (Start t r) = True"
| "is_call ev = False"


fun log_raised :: "event \<Rightarrow> bool" where
  "log_raised (PrintRaised msg e) = True"
| "log_raised (SleepRaised n e) = True"
| "log_raised ev = False"


text \<open>
  \<^verbatim>\<open>setup_failed b ev\<close>: \<^verbatim>\<open>ev\<close> is a \<^verbatim>\<open>setsockopt\<close>, \<^verbatim>\<open>bind\<close> or \<^verbatim>\<open>listen\<close> on
  the socket \<^verbatim>\<open>b\<close> that raised.
\<close>

fun setup_failed :: "sock \<Rightarrow> event \<Rightarrow> bool" where
  "setup_failed b (SetSockOpt s (Raises e)) = (s = b)"
| "setup_failed b (Bind s a p (Raises e)) = (s = b)"
| "setup_failed b (Listen s n (Raises e)) = (s = b)"
| "setup_failed b ev = False"


fun outer_cause :: "event \<Rightarrow> bool" where
  "outer_cause (Socket f (Raises e)) = (f = AF_INET)"
| "outer_cause (SetSockOpt s (Raises e)) = True"
| "outer_cause (Bind s a p (Raises e)) = True"
| "outer_cause (Listen s n (Raises e)) = True"
| "outer_cause (PrintRaised msg e) =
     (msg = ''[INFO] Traffic forwarder listening'' \<or> msg = ''[ERROR] Error handling connection'')"
| "outer_cause (SleepRaised n e) = (n = 1)"
| "outer_cause ev = False"

text \<open>
  The two events by which an exception \<^verbatim>\<open>e\<close> leaves the outer handler: its \<^verbatim>\<open>print\<close> or its
  \<^verbatim>\<open>sleep\<close> raising \<^verbatim>\<open>e\<close>.
\<close>

fun outer_fault :: "exn \<Rightarrow> event \<Rightarrow> bool" where
  "outer_fault e (PrintRaised msg e') = (msg = ''[ERROR] Server error'' \<and> e' = e)"
| "outer_fault e (SleepRaised n e') = (n = 5 \<and> e' = e)"
| "outer_fault e ev = False"

text \<open>A list of \<^verbatim>\<open>print\<close> and \<^verbatim>\<open>sleep\<close> outcomes in which none raises.\<close>

definition quiet :: "faults \<Rightarrow> bool" where
  "quiet fs = list_all (\<lambda>f. f = None) fs"

text \<open>
  What the inner loop does after one \<^verbatim>\<open>handoff\<close> with outcome \<^verbatim>\<open>r\<close>, and the outer loop
  after one \<^verbatim>\<open>outer_try\<close> that ended as \<^verbatim>\<open>st\<close>. These only name the branches of
  \<^verbatim>\<open>accept_loop\<close> and \<^verbatim>\<open>server_loop\<close>.
\<close>

definition after_handoff ::
  "config \<Rightarrow> sock \<Rightarrow> unit outcome \<Rightarrow> nat \<Rightarrow> faults \<Rightarrow> script
     \<Rightarrow> event list \<times> status \<times> nat \<times> faults \<times> script" where
  "after_handoff cfg dock r fd fs rest =
     (case r of
        Blocks \<Rightarrow> ([], Blocked, fd, fs, rest)
      | Returns u \<Rightarrow> accept_loop cfg dock fd fs rest
      | Raises e \<Rightarrow>
         (case inner_except fs of
            (handled, Some e', fs') \<Rightarrow> (handled, Raised e', fd, fs', rest)
          | (handled, None, fs') \<Rightarrow> emit handled (accept_loop cfg dock fd fs' rest)))"

definition after_try ::
  "config \<Rightarrow> sock option \<Rightarrow> status \<Rightarrow> nat \<Rightarrow> faults \<Rightarrow> script \<Rightarrow> event list \<times> status" where
  "after_try cfg dock st fd fs rest =
     (case st of
        Blocked \<Rightarrow> ([], Blocked)
      | Returned \<Rightarrow> ([], Returned)
      | Raised e \<Rightarrow>
         (case outer_except fs of
            (handled, Some e', fs') \<Rightarrow> (handled, Raised e')
          | (handled, None, fs') \<Rightarrow>
              emit (handled @ close_quietly dock) (server_loop cfg dock fd fs' rest)))"

text \<open>The number of calls in a trace that took an outcome from \<^verbatim>\<open>script\<close>.\<close>

definition calls :: "event list \<Rightarrow> nat" where
  "calls tr = length (filter is_call tr)"


section \<open>The copy loop\<close>

lemma fst_emit [simp]: "fst (emit evs run) = evs @ fst run"
  by (simp add: emit_def)

lemma snd_emit [simp]: "snd (emit evs run) = snd run"
  by (simp add: emit_def)



















section \<open>The session\<close>






section \<open>The listener\<close>

lemma fault_eq:
  "fault fs = (f, fs') \<longleftrightarrow> (fs = [] \<and> f = None \<and> fs' = []) \<or> fs = f # fs'"
  by (cases fs) auto

lemma split_append:
  "pre @ ev # post = xs @ ys \<Longrightarrow>
   (\<exists>post1. xs = pre @ ev # post1 \<and> post = post1 @ ys) \<or>
   (\<exists>pre2. pre = xs @ pre2 \<and> ys = pre2 @ ev # post)"
  by (auto simp: append_eq_append_conv2 append_eq_Cons_conv Cons_eq_append_conv)

lemma inner_except_cases:
  "inner_except fs = (handled, x, fs') \<Longrightarrow>
   (handled = [Print ''[ERROR] Error handling connection'', Sleep 1] \<and> x = None) \<or>
   (\<exists>e. handled = [PrintRaised ''[ERROR] Error handling connection'' e] \<and> x = Some e) \<or>
   (\<exists>e. handled = [Print ''[ERROR] Error handling connection'', SleepRaised 1 e] \<and> x = Some e)"
  by (auto simp: inner_except_def print_line_def sleep_for_def
        split: prod.splits option.splits)

lemma outer_except_cases:
  "outer_except fs = (handled, x, fs') \<Longrightarrow>
   (handled = [Print ''[ERROR] Server error'', Sleep 5] \<and> x = None) \<or>
   (\<exists>e. handled = [PrintRaised ''[ERROR] Server error'' e] \<and> x = Some e) \<or>
   (\<exists>e. handled = [Print ''[ERROR] Server error'', SleepRaised 5 e] \<and> x = Some e)"
  by (auto simp: outer_except_def print_line_def sleep_for_def
        split: prod.splits option.splits)

lemma inner_except_no_call:
  "inner_except fs = (handled, x, fs') \<Longrightarrow> ev \<in> set handled \<Longrightarrow>
   \<not> is_call ev \<and> ev \<noteq> PrintRaised ''[INFO] Accepted connection'' e"
  by (drule inner_except_cases) auto

lemma accept_loop_unfold:
  "handoff cfg dock fd fs script = (evs, r, fd', fs', rest) \<Longrightarrow>
   accept_loop cfg dock fd fs script = emit evs (after_handoff cfg dock r fd' fs' rest)"
  by (subst accept_loop.simps)
     (auto simp: after_handoff_def emit_def split: outcome.splits prod.splits option.splits)

lemma accept_loop_split:
  "fst (accept_loop cfg dock fd fs script) = pre @ ev # post \<Longrightarrow>
   is_call ev \<or> ev = PrintRaised ''[INFO] Accepted connection'' e0 \<Longrightarrow>
   \<exists>fd0 fs0 script0 evs r fd1 fs1 rest pre1 post1.
     handoff cfg dock fd0 fs0 script0 = (evs, r, fd1, fs1, rest) \<and> evs = pre1 @ ev # post1 \<and>
     post = post1 @ fst (after_handoff cfg dock r fd1 fs1 rest)"
proof (induction cfg dock fd fs script arbitrary: pre rule: accept_loop.induct)
  case (1 cfg dock fd fs script)
  obtain evs r fd' fs' rest where H: "handoff cfg dock fd fs script = (evs, r, fd', fs', rest)"
    by (cases "handoff cfg dock fd fs script") auto
  from accept_loop_unfold[OF H] 1(3)
  have "pre @ ev # post = evs @ fst (after_handoff cfg dock r fd' fs' rest)" by simp
  from split_append[OF this] show ?case
  proof
    assume "\<exists>post1. evs = pre @ ev # post1 \<and>
       post = post1 @ fst (after_handoff cfg dock r fd' fs' rest)"
    with H show ?thesis by blast
  next
    assume "\<exists>pre2. pre = evs @ pre2 \<and>
       fst (after_handoff cfg dock r fd' fs' rest) = pre2 @ ev # post"
    then obtain pre2 where P: "fst (after_handoff cfg dock r fd' fs' rest) = pre2 @ ev # post"
      by blast
    show ?thesis
    proof (cases r)
      case (Returns u)
      with P have "fst (accept_loop cfg dock fd' fs' rest) = pre2 @ ev # post"
        by (simp add: after_handoff_def)
      from 1(1)[OF H[symmetric] refl Returns refl refl this 1(4)] show ?thesis .
    next
      case (Raises e)
      obtain handled x fs2 where I: "inner_except fs' = (handled, x, fs2)"
        by (cases "inner_except fs'") auto
      show ?thesis
      proof (cases x)
        case None
        with P Raises I have "pre2 @ ev # post = handled @ fst (accept_loop cfg dock fd' fs2 rest)"
          by (simp add: after_handoff_def)
        from split_append[OF this] inner_except_no_call[OF I, of ev e0] 1(4)
        obtain pre3 where "fst (accept_loop cfg dock fd' fs2 rest) = pre3 @ ev # post"
          by auto
        from 1(2)[OF H[symmetric] refl Raises refl refl I[symmetric] refl None this 1(4)]
        show ?thesis .
      next
        case (Some e')
        with P Raises I have "handled = pre2 @ ev # post"
          by (simp add: after_handoff_def)
        then have "ev \<in> set handled" by simp
        with inner_except_no_call[OF I, of ev e0] 1(4) show ?thesis by auto
      qed
    next
      case Blocks
      with P show ?thesis by (simp add: after_handoff_def)
    qed
  qed
qed















lemma accept_loop_status:
  "fst (snd (accept_loop cfg dock fd fs script)) = Blocked \<or>
   (\<exists>e pre. fst (snd (accept_loop cfg dock fd fs script)) = Raised e \<and>
      (fst (accept_loop cfg dock fd fs script) =
         pre @ [PrintRaised ''[ERROR] Error handling connection'' e] \<or>
       fst (accept_loop cfg dock fd fs script) =
         pre @ [Print ''[ERROR] Error handling connection'', SleepRaised 1 e]))"
proof (induction cfg dock fd fs script rule: accept_loop.induct)
  case (1 cfg dock fd fs script)
  obtain evs r fd' fs' rest where H: "handoff cfg dock fd fs script = (evs, r, fd', fs', rest)"
    by (cases "handoff cfg dock fd fs script") auto
  obtain handled x fs2 where I: "inner_except fs' = (handled, x, fs2)"
    by (cases "inner_except fs'") auto
  note U = accept_loop_unfold[OF H]
  show ?case
  proof (cases r)
    case (Returns u)
    from 1(1)[OF H[symmetric] refl Returns refl refl] show ?thesis
    proof
      assume "fst (snd (accept_loop cfg dock fd' fs' rest)) = Blocked"
      with U Returns show ?thesis by (simp add: after_handoff_def)
    next
      assume "\<exists>e pre. fst (snd (accept_loop cfg dock fd' fs' rest)) = Raised e \<and>
        (fst (accept_loop cfg dock fd' fs' rest) =
           pre @ [PrintRaised ''[ERROR] Error handling connection'' e] \<or>
         fst (accept_loop cfg dock fd' fs' rest) =
           pre @ [Print ''[ERROR] Error handling connection'', SleepRaised 1 e])"
      then obtain e pre where
        a: "fst (snd (accept_loop cfg dock fd' fs' rest)) = Raised e" and
        b: "fst (accept_loop cfg dock fd' fs' rest) =
           pre @ [PrintRaised ''[ERROR] Error handling connection'' e] \<or>
         fst (accept_loop cfg dock fd' fs' rest) =
           pre @ [Print ''[ERROR] Error handling connection'', SleepRaised 1 e]"
        by blast
      from b U Returns have "fst (accept_loop cfg dock fd fs script) =
           (evs @ pre) @ [PrintRaised ''[ERROR] Error handling connection'' e] \<or>
         fst (accept_loop cfg dock fd fs script) =
           (evs @ pre) @ [Print ''[ERROR] Error handling connection'', SleepRaised 1 e]"
        by (auto simp: after_handoff_def)
      moreover from a U Returns have "fst (snd (accept_loop cfg dock fd fs script)) = Raised e"
        by (simp add: after_handoff_def)
      ultimately show ?thesis by blast
    qed
  next
    case (Raises e0)
    show ?thesis
    proof (cases x)
      case None
      from inner_except_cases[OF I] None
      have hd: "handled = [Print ''[ERROR] Error handling connection'', Sleep 1]" by auto
      from 1(2)[OF H[symmetric] refl Raises refl refl I[symmetric] refl None] show ?thesis
      proof
        assume "fst (snd (accept_loop cfg dock fd' fs2 rest)) = Blocked"
        with U Raises I None show ?thesis by (simp add: after_handoff_def)
      next
        assume "\<exists>e pre. fst (snd (accept_loop cfg dock fd' fs2 rest)) = Raised e \<and>
          (fst (accept_loop cfg dock fd' fs2 rest) =
             pre @ [PrintRaised ''[ERROR] Error handling connection'' e] \<or>
           fst (accept_loop cfg dock fd' fs2 rest) =
             pre @ [Print ''[ERROR] Error handling connection'', SleepRaised 1 e])"
        then obtain e pre where
          a: "fst (snd (accept_loop cfg dock fd' fs2 rest)) = Raised e" and
          b: "fst (accept_loop cfg dock fd' fs2 rest) =
             pre @ [PrintRaised ''[ERROR] Error handling connection'' e] \<or>
           fst (accept_loop cfg dock fd' fs2 rest) =
             pre @ [Print ''[ERROR] Error handling connection'', SleepRaised 1 e]"
          by blast
        from b U Raises I None have "fst (accept_loop cfg dock fd fs script) =
             (evs @ handled @ pre) @ [PrintRaised ''[ERROR] Error handling connection'' e] \<or>
           fst (accept_loop cfg dock fd fs script) =
             (evs @ handled @ pre) @ [Print ''[ERROR] Error handling connection'', SleepRaised 1 e]"
          by (auto simp: after_handoff_def)
        moreover from a U Raises I None
        have "fst (snd (accept_loop cfg dock fd fs script)) = Raised e"
          by (simp add: after_handoff_def)
        ultimately show ?thesis by blast
      qed
    next
      case (Some e')
      from inner_except_cases[OF I] Some
      have "handled = [PrintRaised ''[ERROR] Error handling connection'' e'] \<or>
            handled = [Print ''[ERROR] Error handling connection'', SleepRaised 1 e']" by auto
      then have "fst (accept_loop cfg dock fd fs script) =
             evs @ [PrintRaised ''[ERROR] Error handling connection'' e'] \<or>
           fst (accept_loop cfg dock fd fs script) =
             evs @ [Print ''[ERROR] Error handling connection'', SleepRaised 1 e']"
        using U Raises I Some by (auto simp: after_handoff_def)
      moreover from U Raises I Some
      have "fst (snd (accept_loop cfg dock fd fs script)) = Raised e'"
        by (simp add: after_handoff_def)
      ultimately show ?thesis by blast
    qed
  next
    case Blocks
    with U show ?thesis by (simp add: after_handoff_def)
  qed
qed

lemma server_loop_unfold:
  "outer_try cfg dock fd fs script = (evs, dock', st, fd', fs', rest) \<Longrightarrow>
   server_loop cfg dock fd fs script = emit evs (after_try cfg dock' st fd' fs' rest)"
  by (subst server_loop.simps)
     (auto simp: after_try_def emit_def split: status.splits prod.splits option.splits)

lemma listen_setup_head:
  "listen_setup cfg dock fd fs script = (evs, dock', r, fd', fs', rest) \<Longrightarrow>
   \<exists>x post. evs = Socket AF_INET x # post"
  unfolding listen_setup_def print_line_def
  by (auto split: prod.splits outcome.splits option.splits)

lemma outer_try_head:
  "outer_try cfg dock fd fs script = (evs, dock', st, fd', fs', rest) \<Longrightarrow>
   \<exists>x post. evs = Socket AF_INET x # post"
proof -
  assume a: "outer_try cfg dock fd fs script = (evs, dock', st, fd', fs', rest)"
  obtain sevs dock1 r fd1 fs1 rest1 where
    L: "listen_setup cfg dock fd fs script = (sevs, dock1, r, fd1, fs1, rest1)"
    by (cases "listen_setup cfg dock fd fs script") auto
  from listen_setup_head[OF L] a L show ?thesis
    by (cases r) (auto simp: outer_try_def split: prod.splits)
qed

lemma server_loop_head:
  "\<exists>x post. fst (server_loop cfg dock fd fs script) = Socket AF_INET x # post"
proof -
  obtain evs dock' st fd' fs' rest where
    T: "outer_try cfg dock fd fs script = (evs, dock', st, fd', fs', rest)"
    by (cases "outer_try cfg dock fd fs script") auto
  from outer_try_head[OF T] server_loop_unfold[OF T] show ?thesis by auto
qed

lemma outer_except_no_call:
  "outer_except fs = (handled, x, fs') \<Longrightarrow> ev \<in> set handled \<Longrightarrow> \<not> is_call ev"
  by (drule outer_except_cases) auto

lemma close_quietly_no_call: "ev \<in> set (close_quietly dock) \<Longrightarrow> \<not> is_call ev"
  by (auto simp: close_quietly_def split: option.splits)

lemma server_loop_split:
  "fst (server_loop cfg dock fd fs script) = pre @ ev # post \<Longrightarrow> is_call ev \<Longrightarrow>
   \<exists>dock0 fd0 fs0 script0 evs dock1 st fd1 fs1 rest pre1 post1.
     outer_try cfg dock0 fd0 fs0 script0 = (evs, dock1, st, fd1, fs1, rest) \<and>
     evs = pre1 @ ev # post1 \<and> post = post1 @ fst (after_try cfg dock1 st fd1 fs1 rest)"
proof (induction cfg dock fd fs script arbitrary: pre rule: server_loop.induct)
  case (1 cfg dock fd fs script)
  obtain evs dock' st fd' fs' rest where
    T: "outer_try cfg dock fd fs script = (evs, dock', st, fd', fs', rest)"
    by (cases "outer_try cfg dock fd fs script") auto
  from server_loop_unfold[OF T] 1(2)
  have "pre @ ev # post = evs @ fst (after_try cfg dock' st fd' fs' rest)" by simp
  from split_append[OF this] show ?case
  proof
    assume "\<exists>post1. evs = pre @ ev # post1 \<and>
       post = post1 @ fst (after_try cfg dock' st fd' fs' rest)"
    with T show ?thesis by blast
  next
    assume "\<exists>pre2. pre = evs @ pre2 \<and>
       fst (after_try cfg dock' st fd' fs' rest) = pre2 @ ev # post"
    then obtain pre2 where P: "fst (after_try cfg dock' st fd' fs' rest) = pre2 @ ev # post"
      by blast
    show ?thesis
    proof (cases st)
      case Returned
      with P show ?thesis by (simp add: after_try_def)
    next
      case Blocked
      with P show ?thesis by (simp add: after_try_def)
    next
      case (Raised e)
      obtain handled x fs2 where O: "outer_except fs' = (handled, x, fs2)"
        by (cases "outer_except fs'") auto
      show ?thesis
      proof (cases x)
        case None
        with P Raised O
        have "pre2 @ ev # post =
            handled @ close_quietly dock' @ fst (server_loop cfg dock' fd' fs2 rest)"
          by (simp add: after_try_def)
        from split_append[OF this] outer_except_no_call[OF O, of ev] 1(3)
        obtain pre3 where
          "pre3 @ ev # post = close_quietly dock' @ fst (server_loop cfg dock' fd' fs2 rest)"
          by auto
        from split_append[OF this] close_quietly_no_call[of ev dock'] 1(3)
        obtain pre4 where "fst (server_loop cfg dock' fd' fs2 rest) = pre4 @ ev # post"
          by auto
        from 1(1)[OF T[symmetric] refl refl Raised refl refl O[symmetric] refl None this 1(3)]
        show ?thesis .
      next
        case (Some e')
        with P Raised O have "handled = pre2 @ ev # post"
          by (simp add: after_try_def)
        then have "ev \<in> set handled" by simp
        with outer_except_no_call[OF O] 1(3) show ?thesis by blast
      qed
    qed
  qed
qed

lemma listen_setup_failed:
  "listen_setup cfg dock fd fs script = (evs, dock', r, fd', fs', rest) \<Longrightarrow>
   evs = pre @ ev # post \<Longrightarrow> setup_failed b ev \<Longrightarrow>
   post = [] \<and> (\<exists>e. r = Raises e) \<and> dock' = Some b"
  unfolding listen_setup_def print_line_def
  by (auto simp: Cons_eq_append_conv append_eq_Cons_conv
        split: prod.splits outcome.splits option.splits)



lemma handoff_no_setup:
  "handoff cfg dock fd fs script = (evs, r, fd', fs', rest) \<Longrightarrow> ev \<in> set evs \<Longrightarrow>
   \<not> setup_failed b ev \<and> (\<forall>e. ev \<noteq> Socket AF_INET (Raises e))"
  unfolding handoff_def Let_def print_line_def
  by (auto split: prod.splits outcome.splits option.splits)


lemma setup_failed_is_call: "setup_failed b ev \<Longrightarrow> is_call ev"
  by (cases ev) auto

lemma accept_loop_no_setup:
  assumes "fst (accept_loop cfg d fd fs script) = pre @ ev # post" and "is_call ev"
  shows "\<not> setup_failed b ev \<and> (\<forall>e. ev \<noteq> Socket AF_INET (Raises e))"
proof -
  from assms(2) have "is_call ev \<or> ev = PrintRaised ''[INFO] Accepted connection'' OSError"
    by simp
  from accept_loop_split[OF assms(1) this]
  obtain fd0 fs0 script0 evs r fd1 fs1 rest pre1 post1 where
    H: "handoff cfg d fd0 fs0 script0 = (evs, r, fd1, fs1, rest)" and E: "evs = pre1 @ ev # post1"
    by blast
  from E have "ev \<in> set evs" by simp
  from handoff_no_setup[OF H this] show ?thesis .
qed


text \<open>Where an event of one outer try stands: in the setup, or in the inner loop.\<close>

lemma outer_try_split:
  assumes "outer_try cfg dock fd fs script = (evs, dock', st, fd', fs', rest)"
    and "evs = pre @ ev # post"
  shows "(\<exists>sevs r fd1 fs1 rest1 post1.
            listen_setup cfg dock fd fs script = (sevs, dock', r, fd1, fs1, rest1) \<and>
            sevs = pre @ ev # post1 \<and>
            (case r of Raises e \<Rightarrow> st = Raised e \<and> post = post1
                     | Blocks \<Rightarrow> st = Blocked \<and> post = post1
                     | Returns d \<Rightarrow> True)) \<or>
         (\<exists>d fd1 fs1 rest1 pre1.
            fst (accept_loop cfg d fd1 fs1 rest1) = pre1 @ ev # post)"
proof -
  obtain sevs dock1 r fd1 fs1 rest1 where
    L: "listen_setup cfg dock fd fs script = (sevs, dock1, r, fd1, fs1, rest1)"
    by (cases "listen_setup cfg dock fd fs script") auto
  show ?thesis
  proof (cases r)
    case (Returns d)
    with assms(1) L have e: "evs = sevs @ fst (accept_loop cfg d fd1 fs1 rest1)" and d: "dock' = dock1"
      by (auto simp: outer_try_def split: prod.splits)
    from split_append[OF assms(2)[unfolded e, symmetric]] show ?thesis
    proof
      assume "\<exists>post1. sevs = pre @ ev # post1 \<and>
         post = post1 @ fst (accept_loop cfg d fd1 fs1 rest1)"
      with L d Returns show ?thesis by auto
    next
      assume "\<exists>pre2. pre = sevs @ pre2 \<and>
         fst (accept_loop cfg d fd1 fs1 rest1) = pre2 @ ev # post"
      then show ?thesis by blast
    qed
  next
    case (Raises e)
    with assms L show ?thesis by (auto simp: outer_try_def)
  next
    case Blocks
    with assms L show ?thesis by (auto simp: outer_try_def)
  qed
qed

lemma after_raised:
  "(\<exists>x post'. fst (after_try cfg dock (Raised e) fd fs rest) =
      Print ''[ERROR] Server error'' # Sleep 5 # close_quietly dock @ Socket AF_INET x # post') \<or>
   (\<exists>e'. fst (after_try cfg dock (Raised e) fd fs rest) =
      [PrintRaised ''[ERROR] Server error'' e']) \<or>
   (\<exists>e'. fst (after_try cfg dock (Raised e) fd fs rest) =
      [Print ''[ERROR] Server error'', SleepRaised 5 e'])"
proof -
  obtain handled x fs2 where O: "outer_except fs = (handled, x, fs2)"
    by (cases "outer_except fs") auto
  from outer_except_cases[OF O] server_loop_head[of cfg dock fd fs2 rest] O show ?thesis
    by (auto simp: after_try_def)
qed

lemma server_loop_setup_failure:
  assumes "fst (server_loop cfg dock fd fs script) = pre @ ev # post" and "setup_failed b ev"
  shows "(\<exists>x post'. post =
            Print ''[ERROR] Server error'' # Sleep 5 # Close b # Socket AF_INET x # post') \<or>
         (\<exists>e. post = [PrintRaised ''[ERROR] Server error'' e]) \<or>
         (\<exists>e. post = [Print ''[ERROR] Server error'', SleepRaised 5 e])"
proof -
  note c = setup_failed_is_call[OF assms(2)]
  from server_loop_split[OF assms(1) c]
  obtain dock0 fd0 fs0 script0 evs dock1 st fd1 fs1 rest pre1 post1 where
    T: "outer_try cfg dock0 fd0 fs0 script0 = (evs, dock1, st, fd1, fs1, rest)" and
    E: "evs = pre1 @ ev # post1" and
    P: "post = post1 @ fst (after_try cfg dock1 st fd1 fs1 rest)"
    by blast
  from outer_try_split[OF T E] show ?thesis
  proof
    assume "\<exists>sevs r fd1 fs1 rest1 post1'.
            listen_setup cfg dock0 fd0 fs0 script0 = (sevs, dock1, r, fd1, fs1, rest1) \<and>
            sevs = pre1 @ ev # post1' \<and>
            (case r of Raises e \<Rightarrow> st = Raised e \<and> post1 = post1'
                     | Blocks \<Rightarrow> st = Blocked \<and> post1 = post1'
                     | Returns d \<Rightarrow> True)"
    then obtain sevs r fd2 fs2 rest2 post1' where
      L: "listen_setup cfg dock0 fd0 fs0 script0 = (sevs, dock1, r, fd2, fs2, rest2)" and
      S: "sevs = pre1 @ ev # post1'" and
      C: "(case r of Raises e \<Rightarrow> st = Raised e \<and> post1 = post1'
                     | Blocks \<Rightarrow> st = Blocked \<and> post1 = post1'
                     | Returns d \<Rightarrow> True)"
      by blast
    from listen_setup_failed[OF L S assms(2)] obtain e where
      "post1' = []" "r = Raises e" "dock1 = Some b" by blast
    with C P after_raised[of cfg "Some b" e fd1 fs1 rest] show ?thesis
      by (auto simp: close_quietly_def)
  next
    assume "\<exists>d fd1 fs1 rest1 pre1'.
            fst (accept_loop cfg d fd1 fs1 rest1) = pre1' @ ev # post1"
    then obtain d fd2 fs2 rest2 pre1' where
      "fst (accept_loop cfg d fd2 fs2 rest2) = pre1' @ ev # post1" by blast
    from accept_loop_no_setup[OF this c] assms(2) show ?thesis by blast
  qed
qed










lemma listen_setup_raised_last:
  "listen_setup cfg dock fd fs script = (evs, dock', Raises e, fd', fs', rest) \<Longrightarrow>
   evs \<noteq> [] \<and> outer_cause (last evs)"
  unfolding listen_setup_def print_line_def
  by (auto split: prod.splits outcome.splits option.splits)

lemma outer_try_status:
  assumes "outer_try cfg dock fd fs script = (evs, dock', st, fd', fs', rest)"
  shows "st = Blocked \<or> (\<exists>e. st = Raised e \<and> evs \<noteq> [] \<and> outer_cause (last evs))"
proof -
  obtain sevs dock1 r fd1 fs1 rest1 where
    L: "listen_setup cfg dock fd fs script = (sevs, dock1, r, fd1, fs1, rest1)"
    by (cases "listen_setup cfg dock fd fs script") auto
  show ?thesis
  proof (cases r)
    case (Returns d)
    with assms L have e: "evs = sevs @ fst (accept_loop cfg d fd1 fs1 rest1)"
      and s: "st = fst (snd (accept_loop cfg d fd1 fs1 rest1))"
      by (auto simp: outer_try_def split: prod.splits)
    from accept_loop_status[of cfg d fd1 fs1 rest1] e s show ?thesis
      by auto
  next
    case (Raises e)
    with assms L listen_setup_raised_last[of cfg dock fd fs script sevs dock1 e fd1 fs1 rest1]
    show ?thesis by (auto simp: outer_try_def)
  next
    case Blocks
    with assms L show ?thesis by (auto simp: outer_try_def)
  qed
qed



lemma server_loop_status:
  "snd (server_loop cfg dock fd fs script) = Blocked \<or>
   (\<exists>e pre. snd (server_loop cfg dock fd fs script) = Raised e \<and>
      (fst (server_loop cfg dock fd fs script) = pre @ [PrintRaised ''[ERROR] Server error'' e] \<or>
       fst (server_loop cfg dock fd fs script) =
         pre @ [Print ''[ERROR] Server error'', SleepRaised 5 e]))"
proof (induction cfg dock fd fs script rule: server_loop.induct)
  case (1 cfg dock fd fs script)
  obtain evs dock' st fd' fs' rest where
    T: "outer_try cfg dock fd fs script = (evs, dock', st, fd', fs', rest)"
    by (cases "outer_try cfg dock fd fs script") auto
  note U = server_loop_unfold[OF T]
  from outer_try_status[OF T] show ?case
  proof
    assume "st = Blocked"
    with U show ?thesis by (simp add: after_try_def)
  next
    assume "\<exists>e. st = Raised e \<and> evs \<noteq> [] \<and> outer_cause (last evs)"
    then obtain e where R: "st = Raised e" by blast
    obtain handled x fs2 where O: "outer_except fs' = (handled, x, fs2)"
      by (cases "outer_except fs'") auto
    show ?thesis
    proof (cases x)
      case None
      from 1(1)[OF T[symmetric] refl refl R refl refl O[symmetric] refl None] show ?thesis
      proof
        assume "snd (server_loop cfg dock' fd' fs2 rest) = Blocked"
        with U R O None show ?thesis by (simp add: after_try_def)
      next
        assume "\<exists>e pre. snd (server_loop cfg dock' fd' fs2 rest) = Raised e \<and>
          (fst (server_loop cfg dock' fd' fs2 rest) =
             pre @ [PrintRaised ''[ERROR] Server error'' e] \<or>
           fst (server_loop cfg dock' fd' fs2 rest) =
             pre @ [Print ''[ERROR] Server error'', SleepRaised 5 e])"
        then obtain e1 pre where
          a: "snd (server_loop cfg dock' fd' fs2 rest) = Raised e1" and
          b: "fst (server_loop cfg dock' fd' fs2 rest) =
             pre @ [PrintRaised ''[ERROR] Server error'' e1] \<or>
           fst (server_loop cfg dock' fd' fs2 rest) =
             pre @ [Print ''[ERROR] Server error'', SleepRaised 5 e1]"
          by blast
        from b U R O None have "fst (server_loop cfg dock fd fs script) =
             (evs @ handled @ close_quietly dock' @ pre) @
               [PrintRaised ''[ERROR] Server error'' e1] \<or>
           fst (server_loop cfg dock fd fs script) =
             (evs @ handled @ close_quietly dock' @ pre) @
               [Print ''[ERROR] Server error'', SleepRaised 5 e1]"
          by (auto simp: after_try_def)
        moreover from a U R O None have "snd (server_loop cfg dock fd fs script) = Raised e1"
          by (simp add: after_try_def)
        ultimately show ?thesis by blast
      qed
    next
      case (Some e')
      from outer_except_cases[OF O] Some
      have "handled = [PrintRaised ''[ERROR] Server error'' e'] \<or>
            handled = [Print ''[ERROR] Server error'', SleepRaised 5 e']" by auto
      then have "fst (server_loop cfg dock fd fs script) =
             evs @ [PrintRaised ''[ERROR] Server error'' e'] \<or>
           fst (server_loop cfg dock fd fs script) =
             evs @ [Print ''[ERROR] Server error'', SleepRaised 5 e']"
        using U R O Some by (auto simp: after_try_def)
      moreover from U R O Some have "snd (server_loop cfg dock fd fs script) = Raised e'"
        by (simp add: after_try_def)
      ultimately show ?thesis by blast
    qed
  qed
qed

lemma quiet_Cons [simp]: "quiet (f # fs) \<longleftrightarrow> f = None \<and> quiet fs"
  by (simp add: quiet_def)

lemma quiet_Nil [simp]: "quiet []"
  by (simp add: quiet_def)

lemma print_line_eq:
  "print_line msg fs = (p, x, fs') \<longleftrightarrow>
     (fs = [] \<and> p = [Print msg] \<and> x = None \<and> fs' = []) \<or>
     (fs = None # fs' \<and> p = [Print msg] \<and> x = None) \<or>
     (\<exists>e. fs = Some e # fs' \<and> p = [PrintRaised msg e] \<and> x = Some e)"
  by (cases fs; cases "hd fs") (auto simp: print_line_def)

lemma sleep_for_eq:
  "sleep_for n fs = (p, x, fs') \<longleftrightarrow>
     (fs = [] \<and> p = [Sleep n] \<and> x = None \<and> fs' = []) \<or>
     (fs = None # fs' \<and> p = [Sleep n] \<and> x = None) \<or>
     (\<exists>e. fs = Some e # fs' \<and> p = [SleepRaised n e] \<and> x = Some e)"
  by (cases fs; cases "hd fs") (auto simp: sleep_for_def)

lemma inner_except_quiet:
  "quiet fs \<Longrightarrow> inner_except fs = (handled, x, fs') \<Longrightarrow>
   handled = [Print ''[ERROR] Error handling connection'', Sleep 1] \<and> x = None \<and> quiet fs'"
  unfolding inner_except_def
  by (auto simp: print_line_eq sleep_for_eq split: prod.splits option.splits)

lemma outer_except_quiet:
  "quiet fs \<Longrightarrow> outer_except fs = (handled, x, fs') \<Longrightarrow>
   handled = [Print ''[ERROR] Server error'', Sleep 5] \<and> x = None \<and> quiet fs'"
  unfolding outer_except_def
  by (auto simp: print_line_eq sleep_for_eq split: prod.splits option.splits)

lemma handoff_quiet:
  "quiet fs \<Longrightarrow> handoff cfg dock fd fs script = (evs, r, fd', fs', rest) \<Longrightarrow>
   quiet fs' \<and> (\<forall>ev\<in>set evs. \<not> log_raised ev)"
  unfolding handoff_def Let_def
  by (auto simp: print_line_eq split: prod.splits outcome.splits option.splits)

lemma listen_setup_quiet:
  "quiet fs \<Longrightarrow> listen_setup cfg dock fd fs script = (evs, dock', r, fd', fs', rest) \<Longrightarrow>
   quiet fs' \<and> (\<forall>ev\<in>set evs. \<not> log_raised ev)"
  unfolding listen_setup_def
  by (auto simp: print_line_eq split: prod.splits outcome.splits option.splits)

lemma accept_loop_quiet:
  "quiet fs \<Longrightarrow>
   fst (snd (accept_loop cfg dock fd fs script)) = Blocked \<and>
   (\<forall>ev\<in>set (fst (accept_loop cfg dock fd fs script)). \<not> log_raised ev)"
proof (induction cfg dock fd fs script rule: accept_loop.induct)
  case (1 cfg dock fd fs script)
  obtain evs r fd' fs' rest where H: "handoff cfg dock fd fs script = (evs, r, fd', fs', rest)"
    by (cases "handoff cfg dock fd fs script") auto
  obtain handled x fs2 where I: "inner_except fs' = (handled, x, fs2)"
    by (cases "inner_except fs'") auto
  note Q = handoff_quiet[OF 1(3) H]
  note QI = inner_except_quiet[OF conjunct1[OF Q] I]
  note U = accept_loop_unfold[OF H]
  show ?case
  proof (cases r)
    case (Returns u)
    from 1(1)[OF H[symmetric] refl Returns refl refl conjunct1[OF Q]] Q U Returns show ?thesis
      by (auto simp: after_handoff_def)
  next
    case (Raises e)
    from QI have N: "x = None" and q2: "quiet fs2" by auto
    from 1(2)[OF H[symmetric] refl Raises refl refl I[symmetric] refl N q2] Q QI U Raises I
    show ?thesis
      by (auto simp: after_handoff_def)
  next
    case Blocks
    with Q U show ?thesis by (auto simp: after_handoff_def)
  qed
qed

lemma outer_try_quiet:
  assumes "quiet fs" and "outer_try cfg dock fd fs script = (evs, dock', st, fd', fs', rest)"
  shows "(st = Blocked \<or> (\<exists>e. st = Raised e \<and> quiet fs')) \<and> (\<forall>ev\<in>set evs. \<not> log_raised ev)"
proof -
  obtain sevs dock1 r fd1 fs1 rest1 where
    L: "listen_setup cfg dock fd fs script = (sevs, dock1, r, fd1, fs1, rest1)"
    by (cases "listen_setup cfg dock fd fs script") auto
  note Q = listen_setup_quiet[OF assms(1) L]
  show ?thesis
  proof (cases r)
    case (Returns d)
    with assms(2) L have e: "evs = sevs @ fst (accept_loop cfg d fd1 fs1 rest1)"
      and s: "st = fst (snd (accept_loop cfg d fd1 fs1 rest1))"
      by (auto simp: outer_try_def split: prod.splits)
    from accept_loop_quiet[OF conjunct1[OF Q], of cfg d fd1 rest1] e s Q show ?thesis
      by auto
  next
    case (Raises e)
    with assms(2) L Q show ?thesis by (auto simp: outer_try_def)
  next
    case Blocks
    with assms(2) L Q show ?thesis by (auto simp: outer_try_def)
  qed
qed

lemma server_loop_quiet:
  "quiet fs \<Longrightarrow>
   snd (server_loop cfg dock fd fs script) = Blocked \<and>
   (\<forall>ev\<in>set (fst (server_loop cfg dock fd fs script)). \<not> log_raised ev)"
proof (induction cfg dock fd fs script rule: server_loop.induct)
  case (1 cfg dock fd fs script)
  obtain evs dock' st fd' fs' rest where
    T: "outer_try cfg dock fd fs script = (evs, dock', st, fd', fs', rest)"
    by (cases "outer_try cfg dock fd fs script") auto
  note U = server_loop_unfold[OF T]
  note Q = outer_try_quiet[OF 1(2) T]
  from Q show ?case
  proof (elim conjE disjE)
    assume "st = Blocked" "\<forall>ev\<in>set evs. \<not> log_raised ev"
    with U show ?thesis by (simp add: after_try_def)
  next
    assume "\<exists>e. st = Raised e \<and> quiet fs'" and ne: "\<forall>ev\<in>set evs. \<not> log_raised ev"
    then obtain e where R: "st = Raised e" and q: "quiet fs'" by blast
    obtain handled x fs2 where O: "outer_except fs' = (handled, x, fs2)"
      by (cases "outer_except fs'") auto
    from outer_except_quiet[OF q O]
    have h: "handled = [Print ''[ERROR] Server error'', Sleep 5]" and N: "x = None"
      and q2: "quiet fs2" by auto
    from 1(1)[OF T[symmetric] refl refl R refl refl O[symmetric] refl N q2] U R O N h ne
    show ?thesis
      by (auto simp: after_try_def close_quietly_def split: option.splits)
  qed
qed

lemma calls_append [simp]: "calls (xs @ ys) = calls xs + calls ys"
  by (simp add: calls_def)

lemma calls_Cons [simp]: "calls (ev # tr) = (if is_call ev then 1 else 0) + calls tr"
  by (simp add: calls_def)

lemma calls_Nil [simp]: "calls [] = 0"
  by (simp add: calls_def)

lemma handoff_calls:
  "handoff cfg dock fd fs script = (evs, r, fd', fs', rest) \<Longrightarrow> Blocks \<notin> set script \<Longrightarrow>
   quiet fs \<Longrightarrow>
   Blocks \<notin> set rest \<and>
   (r \<noteq> Blocks \<longrightarrow> calls evs + length rest = length script) \<and>
   (r = Blocks \<longrightarrow> calls evs = length script + 1)"
  unfolding handoff_def Let_def
  by (auto simp: reply_eq print_line_eq split: prod.splits outcome.splits option.splits)

lemma listen_setup_calls:
  "listen_setup cfg dock fd fs script = (evs, dock', r, fd', fs', rest) \<Longrightarrow>
   Blocks \<notin> set script \<Longrightarrow> quiet fs \<Longrightarrow>
   Blocks \<notin> set rest \<and>
   (r \<noteq> Blocks \<longrightarrow> calls evs + length rest = length script) \<and>
   (r = Blocks \<longrightarrow> calls evs = length script + 1)"
  unfolding listen_setup_def
  by (auto simp: reply_eq print_line_eq split: prod.splits outcome.splits option.splits)

lemma accept_loop_calls:
  "Blocks \<notin> set script \<Longrightarrow> quiet fs \<Longrightarrow>
   calls (fst (accept_loop cfg dock fd fs script)) = length script + 1"
proof (induction cfg dock fd fs script rule: accept_loop.induct)
  case (1 cfg dock fd fs script)
  obtain evs r fd' fs' rest where H: "handoff cfg dock fd fs script = (evs, r, fd', fs', rest)"
    by (cases "handoff cfg dock fd fs script") auto
  obtain handled x fs2 where I: "inner_except fs' = (handled, x, fs2)"
    by (cases "inner_except fs'") auto
  note C = handoff_calls[OF H 1(3) 1(4)]
  note Q = handoff_quiet[OF 1(4) H]
  note QI = inner_except_quiet[OF conjunct1[OF Q] I]
  note U = accept_loop_unfold[OF H]
  show ?case
  proof (cases r)
    case (Returns u)
    from 1(1)[OF H[symmetric] refl Returns refl refl conjunct1[OF C] conjunct1[OF Q]] C U Returns
    show ?thesis by (simp add: after_handoff_def)
  next
    case (Raises e)
    from QI have N: "x = None" and q2: "quiet fs2" by auto
    from 1(2)[OF H[symmetric] refl Raises refl refl I[symmetric] refl N conjunct1[OF C] q2]
      C U Raises I QI
    show ?thesis by (simp add: after_handoff_def)
  next
    case Blocks
    with C U show ?thesis by (simp add: after_handoff_def)
  qed
qed

lemma server_loop_calls:
  "Blocks \<notin> set script \<Longrightarrow> quiet fs \<Longrightarrow>
   calls (fst (server_loop cfg dock fd fs script)) = length script + 1"
proof (induction cfg dock fd fs script rule: server_loop.induct)
  case (1 cfg dock fd fs script)
  obtain sevs dock1 r fd1 fs1 rest1 where
    L: "listen_setup cfg dock fd fs script = (sevs, dock1, r, fd1, fs1, rest1)"
    by (cases "listen_setup cfg dock fd fs script") auto
  note C = listen_setup_calls[OF L 1(2) 1(3)]
  note Q = listen_setup_quiet[OF 1(3) L]
  show ?case
  proof (cases r)
    case (Returns d)
    obtain tr st fd2 fs2 rest2 where
      A: "accept_loop cfg d fd1 fs1 rest1 = (tr, st, fd2, fs2, rest2)"
      by (cases "accept_loop cfg d fd1 fs1 rest1") auto
    from accept_loop_quiet[OF conjunct1[OF Q], of cfg d fd1 rest1] A
    have st: "st = Blocked" by simp
    from L Returns A have T: "outer_try cfg dock fd fs script = (sevs @ tr, dock1, st, fd2, fs2, rest2)"
      by (simp add: outer_try_def)
    from accept_loop_calls[OF conjunct1[OF C] conjunct1[OF Q], of cfg d fd1] A
    have "calls tr = length rest1 + 1" by simp
    with server_loop_unfold[OF T] st C Returns show ?thesis
      by (simp add: after_try_def)
  next
    case (Raises e)
    from L Raises have T: "outer_try cfg dock fd fs script = (sevs, dock1, Raised e, fd1, fs1, rest1)"
      by (simp add: outer_try_def)
    obtain handled x fs2 where O: "outer_except fs1 = (handled, x, fs2)"
      by (cases "outer_except fs1") auto
    from outer_except_quiet[OF conjunct1[OF Q] O]
    have h: "handled = [Print ''[ERROR] Server error'', Sleep 5]" and N: "x = None"
      and q2: "quiet fs2" by auto
    from 1(1)[OF T[symmetric] refl refl refl refl refl O[symmetric] refl N conjunct1[OF C] q2]
      server_loop_unfold[OF T] O N h C Raises
    show ?thesis
      by (simp add: after_try_def close_quietly_def split: option.splits)
  next
    case Blocks
    from L Blocks have T: "outer_try cfg dock fd fs script = (sevs, dock1, Blocked, fd1, fs1, rest1)"
      by (simp add: outer_try_def)
    with server_loop_unfold[OF T] C Blocks show ?thesis
      by (simp add: after_try_def)
  qed
qed

lemma keep_alive_raised:
  "keep_alive sleeps i = Some (n, e) \<Longrightarrow> sleeps n = Some e"
proof -
  assume a: "keep_alive sleeps i = Some (n, e)"
  have "sleeps (fst (n, e)) = Some (snd (n, e))"
    by (rule keep_alive.raw_induct[where P = "\<lambda>sleeps i r. sleeps (fst r) = Some (snd r)", OF _ a])
       (auto split: option.splits)
  then show ?thesis by simp
qed

lemma keep_alive_never:
  "\<forall>i. sleeps i = None \<Longrightarrow> keep_alive sleeps i = None"
proof (cases "keep_alive sleeps i")
  case None
  then show ?thesis .
next
  case (Some r)
  assume a: "\<forall>i. sleeps i = None"
  obtain n e where "r = (n, e)" by (cases r)
  with Some keep_alive_raised[of sleeps i n e] a show ?thesis by simp
qed

lemma keep_alive_first:
  "sleeps (i + k) = Some e \<Longrightarrow> \<forall>j<k. sleeps (i + j) = None \<Longrightarrow>
   keep_alive sleeps i = Some (i + k, e)"
proof (induction k arbitrary: i)
  case 0
  then show ?case by (subst keep_alive.simps) simp
next
  case (Suc k)
  from Suc.prems(2) have n: "sleeps i = None" by (metis add.right_neutral zero_less_Suc)
  have a: "sleeps (Suc i + k) = Some e" using Suc.prems(1) by simp
  have b: "\<forall>j<k. sleeps (Suc i + j) = None"
  proof (intro allI impI)
    fix j assume "j < k"
    then have "Suc j < Suc k" by simp
    with Suc.prems(2) have "sleeps (i + Suc j) = None" by blast
    then show "sleeps (Suc i + j) = None" by simp
  qed
  from Suc.IH[OF a b] n show ?case
    by (subst keep_alive.simps) simp
qed

lemma listen_setup_no_outer_fault:
  "listen_setup cfg dock fd fs script = (evs, dock', r, fd', fs', rest) \<Longrightarrow>
   \<forall>X\<in>set evs. \<not> outer_fault e X"
  unfolding listen_setup_def print_line_def
  by (auto split: prod.splits outcome.splits option.splits)

lemma handoff_no_outer_fault:
  "handoff cfg dock fd fs script = (evs, r, fd', fs', rest) \<Longrightarrow>
   \<forall>X\<in>set evs. \<not> outer_fault e X"
  unfolding handoff_def Let_def print_line_def
  by (auto split: prod.splits outcome.splits option.splits)

lemma inner_except_no_outer_fault:
  "inner_except fs = (handled, x, fs') \<Longrightarrow> \<forall>X\<in>set handled. \<not> outer_fault e X"
  by (drule inner_except_cases) auto

lemma accept_loop_no_outer_fault:
  "\<forall>X\<in>set (fst (accept_loop cfg dock fd fs script)). \<not> outer_fault e X"
proof (induction cfg dock fd fs script rule: accept_loop.induct)
  case (1 cfg dock fd fs script)
  obtain evs r fd' fs' rest where H: "handoff cfg dock fd fs script = (evs, r, fd', fs', rest)"
    by (cases "handoff cfg dock fd fs script") auto
  obtain handled x fs2 where I: "inner_except fs' = (handled, x, fs2)"
    by (cases "inner_except fs'") auto
  from handoff_no_outer_fault[OF H, of e] inner_except_no_outer_fault[OF I, of e]
    1(1)[OF H[symmetric] refl _ refl refl] 1(2)[OF H[symmetric] refl _ refl refl I[symmetric] refl]
    accept_loop_unfold[OF H] I
  show ?case
    by (cases r; cases x) (auto simp: after_handoff_def)
qed

lemma outer_try_no_outer_fault:
  assumes "outer_try cfg dock fd fs script = (evs, dock', st, fd', fs', rest)"
  shows "\<forall>X\<in>set evs. \<not> outer_fault e X"
proof -
  obtain sevs dock1 r fd1 fs1 rest1 where
    L: "listen_setup cfg dock fd fs script = (sevs, dock1, r, fd1, fs1, rest1)"
    by (cases "listen_setup cfg dock fd fs script") auto
  show ?thesis
  proof (cases r)
    case (Returns d)
    with assms L have "evs = sevs @ fst (accept_loop cfg d fd1 fs1 rest1)"
      by (auto simp: outer_try_def split: prod.splits)
    with listen_setup_no_outer_fault[OF L, of e]
      accept_loop_no_outer_fault[of cfg d fd1 fs1 rest1 e]
    show ?thesis by auto
  next
    case (Raises e1)
    with listen_setup_no_outer_fault[OF L, of e] assms L show ?thesis
      by (auto simp: outer_try_def)
  next
    case Blocks
    with listen_setup_no_outer_fault[OF L, of e] assms L show ?thesis
      by (auto simp: outer_try_def)
  qed
qed

lemma server_loop_fault_ends:
  "X \<in> set (fst (server_loop cfg dock fd fs script)) \<Longrightarrow> outer_fault e X \<Longrightarrow>
   snd (server_loop cfg dock fd fs script) = Raised e"
proof (induction cfg dock fd fs script rule: server_loop.induct)
  case (1 cfg dock fd fs script)
  obtain evs dock' st fd' fs' rest where
    T: "outer_try cfg dock fd fs script = (evs, dock', st, fd', fs', rest)"
    by (cases "outer_try cfg dock fd fs script") auto
  note U = server_loop_unfold[OF T]
  from outer_try_no_outer_fault[OF T, of e] 1(3) have nx: "X \<notin> set evs" by blast
  from 1(2) U nx have xa: "X \<in> set (fst (after_try cfg dock' st fd' fs' rest))" by simp
  show ?case
  proof (cases st)
    case Returned
    with xa show ?thesis by (simp add: after_try_def)
  next
    case Blocked
    with xa show ?thesis by (simp add: after_try_def)
  next
    case (Raised e0)
    obtain handled x fs2 where O: "outer_except fs' = (handled, x, fs2)"
      by (cases "outer_except fs'") auto
    show ?thesis
    proof (cases x)
      case None
      from outer_except_cases[OF O] None
      have h: "handled = [Print ''[ERROR] Server error'', Sleep 5]" by auto
      from xa Raised O None h 1(3)
      have "X \<in> set (fst (server_loop cfg dock' fd' fs2 rest))"
        by (auto simp: after_try_def close_quietly_def split: option.splits)
      from 1(1)[OF T[symmetric] refl refl Raised refl refl O[symmetric] refl None this 1(3)]
        U Raised O None
      show ?thesis by (simp add: after_try_def)
    next
      case (Some e')
      from outer_except_cases[OF O] Some
      have "handled = [PrintRaised ''[ERROR] Server error'' e'] \<or>
            handled = [Print ''[ERROR] Server error'', SleepRaised 5 e']" by auto
      with xa Raised O Some 1(3) have "e' = e"
        by (auto simp: after_try_def)
      with U Raised O Some show ?thesis by (simp add: after_try_def)
    qed
  qed
qed

text \<open>
  C4, as the code has it. A \<^verbatim>\<open>bind\<close> that raises is handled inside \<^verbatim>\<open>server\<close>: the error is
  printed, the Listener sleeps 5, closes the socket it could not bind and starts again from
  \<^verbatim>\<open>socket.socket\<close>; the second conjunct is such a run from its inputs. Nothing of the
  \<^verbatim>\<open>bind\<close> reaches the caller: the only exceptions that leave \<^verbatim>\<open>server\<close> are those of the
  outer handler's own \<^verbatim>\<open>print\<close> and \<^verbatim>\<open>sleep\<close>, which end the run where they are raised.
\<close>

theorem server_bind_failure_handled:
  "(\<forall>pre b a p e post.
      fst (server cfg fs script) = pre @ Bind b a p (Raises e) # post \<longrightarrow>
      (\<exists>x post'. post =
         Print ''[ERROR] Server error'' # Sleep 5 # Close b # Socket AF_INET x # post') \<or>
      (\<exists>e'. post = [PrintRaised ''[ERROR] Server error'' e']) \<or>
      (\<exists>e'. post = [Print ''[ERROR] Server error'', SleepRaised 5 e'])) \<and>
   server cfg (None # None # fs) (Returns () # Returns () # Raises e # script) =
     emit [Socket AF_INET (Returns 0), SetSockOpt 0 (Returns ()),
           Bind 0 (local_ip cfg) (local_port cfg) (Raises e),
           Print ''[ERROR] Server error'', Sleep 5, Close 0]
       (server_loop cfg (Some 0) 1 fs script) \<and>
   (\<forall>e'. snd (server cfg fs script) = Raised e' \<longrightarrow>
      (\<exists>pre. fst (server cfg fs script) = pre @ [PrintRaised ''[ERROR] Server error'' e'] \<or>
             fst (server cfg fs script) =
               pre @ [Print ''[ERROR] Server error'', SleepRaised 5 e']))"
proof -
  have a: "(\<exists>x post'. post =
         Print ''[ERROR] Server error'' # Sleep 5 # Close b # Socket AF_INET x # post') \<or>
      (\<exists>e'. post = [PrintRaised ''[ERROR] Server error'' e']) \<or>
      (\<exists>e'. post = [Print ''[ERROR] Server error'', SleepRaised 5 e'])"
    if "fst (server cfg fs script) = pre @ Bind b a p (Raises e) # post" for pre b a p e post
  proof -
    have f: "setup_failed b (Bind b a p (Raises e))" by simp
    from that have "fst (server_loop cfg None 0 fs script) = pre @ Bind b a p (Raises e) # post"
      by (simp add: server_def)
    from server_loop_setup_failure[OF this f] show ?thesis .
  qed
  have b: "server cfg (None # None # fs) (Returns () # Returns () # Raises e # script) =
     emit [Socket AF_INET (Returns 0), SetSockOpt 0 (Returns ()),
           Bind 0 (local_ip cfg) (local_port cfg) (Raises e),
           Print ''[ERROR] Server error'', Sleep 5, Close 0]
       (server_loop cfg (Some 0) 1 fs script)"
    unfolding server_def
    by (subst server_loop.simps)
       (simp add: outer_try_def listen_setup_def outer_except_def print_line_def sleep_for_def
          close_quietly_def)
  have c: "\<exists>pre. fst (server cfg fs script) = pre @ [PrintRaised ''[ERROR] Server error'' e'] \<or>
             fst (server cfg fs script) =
               pre @ [Print ''[ERROR] Server error'', SleepRaised 5 e']"
    if "snd (server cfg fs script) = Raised e'" for e'
    using that server_loop_status[of cfg None 0 fs script] by (auto simp: server_def)
  from a b c show ?thesis by blast
qed

theorem server_bind_failure_handled_witness:
  "\<exists>x post'. drop 3 (fst (server
      \<lparr>local_ip = ''127.0.0.1'', local_port = 9000, remote_cid = 3, remote_port = 9001\<rparr> []
      [Returns (), Returns (), Raises OSError])) =
     Print ''[ERROR] Server error'' # Sleep 5 # Close 0 # Socket AF_INET x # post'"
proof -
  let ?cfg = "\<lparr>local_ip = ''127.0.0.1'', local_port = 9000, remote_cid = 3, remote_port = 9001\<rparr>"
  let ?script = "[Returns (), Returns (), Raises OSError]"
  let ?tr = "fst (server ?cfg [] ?script)"
  have "\<exists>p1 p2 post. ?tr =
      [Socket AF_INET (Returns 0), SetSockOpt 0 (Returns ())] @
        Bind 0 ''127.0.0.1'' 9000 (Raises OSError) # Print p1 # Sleep p2 # post"
    by (simp add: server_def server_loop.simps outer_try_def listen_setup_def outer_except_def
          print_line_def sleep_for_def)
  then obtain p1 p2 post where p: "?tr =
      [Socket AF_INET (Returns 0), SetSockOpt 0 (Returns ())] @
        Bind 0 ''127.0.0.1'' 9000 (Raises OSError) # Print p1 # Sleep p2 # post"
    by blast
  with server_bind_failure_handled[of ?cfg "[]" ?script]
  have "\<exists>x post'. Print p1 # Sleep p2 # post =
      Print ''[ERROR] Server error'' # Sleep 5 # Close 0 # Socket AF_INET x # post'"
    by fastforce
  with p show ?thesis by auto
qed

text \<open>
  The claim as written fails: \<^verbatim>\<open>bind\<close> raises, and \<^verbatim>\<open>server\<close> is next found waiting in
  the \<^verbatim>\<open>socket.socket\<close> call of its second attempt; nothing was signalled to the caller.
\<close>

theorem server_bind_failure_handled_counterexample:
  "server \<lparr>local_ip = ''127.0.0.1'', local_port = 9000, remote_cid = 3, remote_port = 9001\<rparr> []
     [Returns (), Returns (), Raises OSError] =
   ([Socket AF_INET (Returns 0), SetSockOpt 0 (Returns ()),
     Bind 0 ''127.0.0.1'' 9000 (Raises OSError),
     Print ''[ERROR] Server error'', Sleep 5, Close 0, Socket AF_INET Blocks], Blocked)"
  by (simp add: server_def server_loop.simps outer_try_def listen_setup_def outer_except_def
        print_line_def sleep_for_def emit_def close_quietly_def)










text \<open>
  C10, as the code has it. With four arguments that parse and the thread started, \<^verbatim>\<open>main\<close>
  never returns normally: it runs for ever when its \<^verbatim>\<open>print\<close> and its sleeps return, and
  otherwise ends by the exception of that \<^verbatim>\<open>print\<close> or of a \<^verbatim>\<open>sleep\<close>. The server loop never
  returns normally either: after every pair of lists it is inside a call, or has been left
  by an exception of the outer handler's own \<^verbatim>\<open>print\<close> or \<^verbatim>\<open>sleep\<close>. When no \<^verbatim>\<open>print\<close> or
  \<^verbatim>\<open>sleep\<close> raises it is always inside a call, and as long as no call hangs it has made one
  call more than it was given outcomes, so it never stops of its own accord. Such an
  exception does end them: when the \<^verbatim>\<open>print\<close> of \<^verbatim>\<open>main\<close> raises, or its first \<^verbatim>\<open>sleep\<close> that
  raises is the one numbered \<^verbatim>\<open>n\<close>, \<^verbatim>\<open>main\<close> ends there with that exception, and a trace of the
  server loop that holds a failed \<^verbatim>\<open>print\<close> or \<^verbatim>\<open>sleep\<close> of the outer handler ends with its
  exception.
\<close>

theorem main_runs_until_fault:
  assumes "parse_args py_int args = Inr cfg"
  shows "(printed = None \<and> (\<forall>i. sleeps i = None) \<longrightarrow>
            main py_int args (Returns ()) printed sleeps = None) \<and>
         (\<forall>tr st. main py_int args (Returns ()) printed sleeps = Some (tr, st) \<longrightarrow>
            (\<exists>e. st = Raised e \<and> (printed = Some e \<or> (\<exists>i. sleeps i = Some e)))) \<and>
         (\<forall>e. printed = Some e \<longrightarrow>
            main py_int args (Returns ()) printed sleeps =
              Some ([Start (Server cfg) (Returns ()), PrintRaised ''starting forwarder'' e],
                    Raised e)) \<and>
         (\<forall>n e. printed = None \<and> sleeps n = Some e \<and> (\<forall>j<n. sleeps j = None) \<longrightarrow>
            main py_int args (Returns ()) printed sleeps =
              Some ([Start (Server cfg) (Returns ()), Print ''starting forwarder'']
                      @ replicate n (Sleep 60) @ [SleepRaised 60 e], Raised e)) \<and>
         (snd (server cfg fs script) = Blocked \<or>
          (\<exists>e pre. snd (server cfg fs script) = Raised e \<and>
             (fst (server cfg fs script) = pre @ [PrintRaised ''[ERROR] Server error'' e] \<or>
              fst (server cfg fs script) =
                pre @ [Print ''[ERROR] Server error'', SleepRaised 5 e]))) \<and>
         (\<forall>e. PrintRaised ''[ERROR] Server error'' e \<in> set (fst (server cfg fs script)) \<or>
              SleepRaised 5 e \<in> set (fst (server cfg fs script)) \<longrightarrow>
            snd (server cfg fs script) = Raised e) \<and>
         (quiet fs \<longrightarrow>
            snd (server cfg fs script) = Blocked \<and>
            (Blocks \<notin> set script \<longrightarrow> calls (fst (server cfg fs script)) = length script + 1))"
proof -
  have a: "main py_int args (Returns ()) printed sleeps = None"
    if "printed = None" and "\<forall>i. sleeps i = None"
    using that assms keep_alive_never[of sleeps 0] by (simp add: main_def)
  have a': "printed = None \<and> (\<forall>i. sleeps i = None) \<longrightarrow>
            main py_int args (Returns ()) printed sleeps = None"
    by (intro impI, elim conjE, rule a)
  have b: "\<exists>e. st = Raised e \<and> (printed = Some e \<or> (\<exists>i. sleeps i = Some e))"
    if "main py_int args (Returns ()) printed sleeps = Some (tr, st)" for tr st
    using that assms keep_alive_raised[of sleeps 0]
    by (auto simp: main_def split: option.splits)
  have b': "\<forall>tr st. main py_int args (Returns ()) printed sleeps = Some (tr, st) \<longrightarrow>
            (\<exists>e. st = Raised e \<and> (printed = Some e \<or> (\<exists>i. sleeps i = Some e)))"
    using b by blast
  have p: "\<forall>e. printed = Some e \<longrightarrow>
            main py_int args (Returns ()) printed sleeps =
              Some ([Start (Server cfg) (Returns ()), PrintRaised ''starting forwarder'' e],
                    Raised e)"
    using assms by (simp add: main_def)
  have s: "\<forall>n e. printed = None \<and> sleeps n = Some e \<and> (\<forall>j<n. sleeps j = None) \<longrightarrow>
            main py_int args (Returns ()) printed sleeps =
              Some ([Start (Server cfg) (Returns ()), Print ''starting forwarder'']
                      @ replicate n (Sleep 60) @ [SleepRaised 60 e], Raised e)"
  proof (intro allI impI, elim conjE)
    fix n e
    assume pn: "printed = None" and sn: "sleeps n = Some e" and bn: "\<forall>j<n. sleeps j = None"
    from keep_alive_first[of sleeps 0 n e] sn bn have "keep_alive sleeps 0 = Some (n, e)" by simp
    with assms pn show "main py_int args (Returns ()) printed sleeps =
              Some ([Start (Server cfg) (Returns ()), Print ''starting forwarder'']
                      @ replicate n (Sleep 60) @ [SleepRaised 60 e], Raised e)"
      by (simp add: main_def)
  qed
  have c: "snd (server cfg fs script) = Blocked \<or>
          (\<exists>e pre. snd (server cfg fs script) = Raised e \<and>
             (fst (server cfg fs script) = pre @ [PrintRaised ''[ERROR] Server error'' e] \<or>
              fst (server cfg fs script) =
                pre @ [Print ''[ERROR] Server error'', SleepRaised 5 e]))"
    unfolding server_def using server_loop_status[of cfg None 0 fs script] .
  have f: "\<forall>e. PrintRaised ''[ERROR] Server error'' e \<in> set (fst (server cfg fs script)) \<or>
              SleepRaised 5 e \<in> set (fst (server cfg fs script)) \<longrightarrow>
            snd (server cfg fs script) = Raised e"
  proof (intro allI impI)
    fix e
    assume "PrintRaised ''[ERROR] Server error'' e \<in> set (fst (server cfg fs script)) \<or>
              SleepRaised 5 e \<in> set (fst (server cfg fs script))"
    then show "snd (server cfg fs script) = Raised e"
      unfolding server_def
      using server_loop_fault_ends[of "PrintRaised ''[ERROR] Server error'' e" cfg None 0 fs script e]
        server_loop_fault_ends[of "SleepRaised 5 e" cfg None 0 fs script e]
      by auto
  qed
  have d: "quiet fs \<longrightarrow>
            snd (server cfg fs script) = Blocked \<and>
            (Blocks \<notin> set script \<longrightarrow> calls (fst (server cfg fs script)) = length script + 1)"
    unfolding server_def
    using server_loop_quiet[of fs cfg None 0 script] server_loop_calls[of script fs cfg None 0]
    by blast
  show ?thesis
    by (rule conjI[OF a' conjI[OF b' conjI[OF p conjI[OF s conjI[OF c conjI[OF f d]]]]]])
qed

theorem main_runs_until_fault_witness:
  "main [''9000'' \<mapsto> 9000, ''3'' \<mapsto> 3, ''9001'' \<mapsto> 9001]
     [''127.0.0.1'', ''9000'', ''3'', ''9001''] (Returns ()) None Map.empty = None \<and>
   main [''9000'' \<mapsto> 9000, ''3'' \<mapsto> 3, ''9001'' \<mapsto> 9001]
     [''127.0.0.1'', ''9000'', ''3'', ''9001''] (Returns ()) None [2 \<mapsto> OSError] =
     Some ([Start (Server \<lparr>local_ip = ''127.0.0.1'', local_port = 9000, remote_cid = 3,
                           remote_port = 9001\<rparr>) (Returns ()),
            Print ''starting forwarder'', Sleep 60, Sleep 60, SleepRaised 60 OSError],
           Raised OSError) \<and>
   calls (fst (server
     \<lparr>local_ip = ''127.0.0.1'', local_port = 9000, remote_cid = 3, remote_port = 9001\<rparr> []
     [Returns (), Returns (), Raises OSError])) = 4"
proof -
  let ?py_int = "[''9000'' \<mapsto> 9000, ''3'' \<mapsto> 3, ''9001'' \<mapsto> (9001 :: int)]"
  let ?cfg = "\<lparr>local_ip = ''127.0.0.1'', local_port = 9000, remote_cid = 3, remote_port = 9001\<rparr>"
  have p: "parse_args ?py_int [''127.0.0.1'', ''9000'', ''3'', ''9001''] = Inr ?cfg"
    by (simp add: parse_args_def arg_def)
  have b: "Blocks \<notin> set [Returns (), Returns (), Raises OSError]"
    by simp
  have q: "quiet []" by (simp add: quiet_def)
  have s: "\<forall>i. (Map.empty :: nat \<Rightarrow> exn option) i = None" by simp
  have s2: "[2 \<mapsto> OSError] (2 :: nat) = Some OSError \<and> (\<forall>j<2. [2 \<mapsto> OSError] (j :: nat) = None)"
    by simp
  from main_runs_until_fault[OF p, of None Map.empty "[]" "[Returns (), Returns (), Raises OSError]"]
    b q s
  have w1: "main ?py_int [''127.0.0.1'', ''9000'', ''3'', ''9001''] (Returns ()) None Map.empty = None"
    and w3: "calls (fst (server ?cfg [] [Returns (), Returns (), Raises OSError])) = 4"
    by simp_all
  from main_runs_until_fault[OF p, of None "[2 \<mapsto> OSError]" "[]" "[]"] s2
  have w2: "main ?py_int [''127.0.0.1'', ''9000'', ''3'', ''9001''] (Returns ()) None
      [2 \<mapsto> OSError] =
     Some ([Start (Server ?cfg) (Returns ()), Print ''starting forwarder'']
             @ replicate 2 (Sleep 60) @ [SleepRaised 60 OSError], Raised OSError)"
    by blast
  from w1 w2 w3 show ?thesis by (simp add: numeral_2_eq_2)
qed

text \<open>
  The claim as written fails: the process has started, every \<^verbatim>\<open>print\<close> raises (the standard
  output is closed), and both \<^verbatim>\<open>main\<close> and \<^verbatim>\<open>server\<close> are left by an exception.
\<close>

theorem main_runs_until_fault_counterexample:
  "main [''9000'' \<mapsto> 9000, ''3'' \<mapsto> 3, ''9001'' \<mapsto> 9001]
     [''127.0.0.1'', ''9000'', ''3'', ''9001''] (Returns ()) (Some OSError) Map.empty =
     Some ([Start (Server \<lparr>local_ip = ''127.0.0.1'', local_port = 9000, remote_cid = 3,
                           remote_port = 9001\<rparr>) (Returns ()),
            PrintRaised ''starting forwarder'' OSError], Raised OSError) \<and>
   server \<lparr>local_ip = ''127.0.0.1'', local_port = 9000, remote_cid = 3, remote_port = 9001\<rparr>
     [Some OSError, Some OSError] [Returns (), Returns (), Returns (), Returns ()] =
     ([Socket AF_INET (Returns 0), SetSockOpt 0 (Returns ()),
       Bind 0 ''127.0.0.1'' 9000 (Returns ()), Listen 0 5 (Returns ()),
       PrintRaised ''[INFO] Traffic forwarder listening'' OSError,
       PrintRaised ''[ERROR] Server error'' OSError], Raised OSError)"
  by (simp add: main_def parse_args_def arg_def server_def server_loop.simps outer_try_def
        listen_setup_def outer_except_def print_line_def sleep_for_def)

end
